theory Spec2Isabelle
  imports Complex_Main
begin

section \<open>Dense matrices of the linear-algebra library\<close>

text \<open>
  \<^verbatim>\<open>sparse_bias_layer.hpp\<close> computes on \<^verbatim>\<open>arma::Mat<eT>\<close>. A matrix is its row
  count, its column count and its elements in column-major order, as the library stores
  them. The element type \<open>'a\<close> is the template parameter \<^verbatim>\<open>eT\<close>; the arithmetic on it is
  the exact arithmetic of a field (rounding of \<^verbatim>\<open>double\<close> is not part of this model).
\<close>

record 'a Mat =
  n_rows :: nat
  n_cols :: nat
  mem :: "'a list"

definition wf_Mat :: "'a Mat \<Rightarrow> bool" where
  "wf_Mat X \<longleftrightarrow> length (mem X) = n_rows X * n_cols X"

definition elem :: "'a Mat \<Rightarrow> nat \<Rightarrow> nat \<Rightarrow> 'a" where
  \<comment> \<open>\<^verbatim>\<open>X(i, j)\<close>, read where \<open>i < n_rows X\<close> and \<open>j < n_cols X\<close>\<close>
  "elem X i j = mem X ! (i + j * n_rows X)"

definition generate :: "nat \<Rightarrow> nat \<Rightarrow> (nat \<Rightarrow> nat \<Rightarrow> 'a) \<Rightarrow> 'a Mat" where
  \<comment> \<open>the \<open>r \<times> c\<close> matrix with element \<open>f i j\<close> at row \<open>i\<close>, column \<open>j\<close>\<close>
  "generate r c f =
     \<lparr>n_rows = r, n_cols = c,
      mem = concat (map (\<lambda>j. map (\<lambda>i. f i j) [0..<r]) [0..<c])\<rparr>"

definition empty_Mat :: "'a Mat" where
  \<comment> \<open>a default-constructed \<^verbatim>\<open>arma::Mat\<close>: \<open>0 \<times> 0\<close>\<close>
  "empty_Mat = \<lparr>n_rows = 0, n_cols = 0, mem = []\<rparr>"

definition zeros :: "nat \<Rightarrow> nat \<Rightarrow> ('a::zero) Mat" where
  "zeros r c = generate r c (\<lambda>i j. 0)"

definition repmat :: "'a Mat \<Rightarrow> nat \<Rightarrow> nat \<Rightarrow> 'a Mat" where
  \<comment> \<open>\<^verbatim>\<open>arma::repmat(A, p, q)\<close>: \<open>p\<close> copies of \<open>A\<close> down, \<open>q\<close> copies across\<close>
  "repmat A p q =
     generate (n_rows A * p) (n_cols A * q)
       (\<lambda>i j. elem A (i mod n_rows A) (j mod n_cols A))"

text \<open>
  The matrix library is not among the sources. Its element-wise addition is taken as
  documented on operands of the same shape. What it does on operands of different shape
  is not fixed by anything in \<^verbatim>\<open>sparse_bias_layer.hpp\<close>; it is a parameter \<open>nc\<close> of
  the model, which may raise the library's exception (\<^verbatim>\<open>std::logic_error\<close>, the one
  value of \<open>arma_error\<close>) or yield some matrix.
\<close>

datatype arma_error = LogicError

definition arma_plus ::
  "('a Mat \<Rightarrow> 'a Mat \<Rightarrow> arma_error + 'a Mat) \<Rightarrow> ('a::plus) Mat \<Rightarrow> 'a Mat \<Rightarrow> arma_error + 'a Mat"
  where
  \<comment> \<open>\<^verbatim>\<open>A + B\<close>: element-wise on operands of the same shape; on others, whatever the
      library in use does, \<open>nc A B\<close>\<close>
  "arma_plus nc A B =
     (if n_rows A = n_rows B \<and> n_cols A = n_cols B
      then Inr (generate (n_rows A) (n_cols A) (\<lambda>i j. elem A i j + elem B i j))
      else nc A B)"

definition proceeds :: "('a::plus) Mat \<Rightarrow> 'a Mat \<Rightarrow> arma_error + 'a Mat" where
  \<comment> \<open>Modelled from the spec: the addition of the matrix library on operands of
      different shape, which is not among the sources. The spec says of the reference
      behaviour that it has no error path for a shape mismatch, does not check it and
      silently computes a wrong-shaped result: here the element-wise sum over the shape
      of the left operand, whose entries are not specified where the right operand has
      no element.\<close>
  "proceeds A B =
     Inr (generate (n_rows A) (n_cols A) (\<lambda>i j. elem A i j + elem B i j))"

definition arma_sum_1 :: "('a::monoid_add) Mat \<Rightarrow> 'a Mat" where
  \<comment> \<open>\<^verbatim>\<open>arma::sum(X, 1)\<close>: the column vector of the sums of the rows of \<open>X\<close>\<close>
  "arma_sum_1 X =
     generate (n_rows X) 1 (\<lambda>i j. sum_list (map (\<lambda>k. elem X i k) [0..<n_cols X]))"

definition arma_div :: "('a::inverse) Mat \<Rightarrow> 'a \<Rightarrow> 'a Mat" where
  \<comment> \<open>\<^verbatim>\<open>X / s\<close>: every element divided by the scalar \<open>s\<close>\<close>
  "arma_div X s = X\<lparr>mem := map (\<lambda>x. x / s) (mem X)\<rparr>"


section \<open>The layer object\<close>

text \<open>
  The private members of \<^verbatim>\<open>SparseBiasLayer\<close>, in declaration order. The optimizer pointer
  is an address in the optimizer heap, \<open>None\<close> for \<^verbatim>\<open>nullptr\<close>.
\<close>

record 'a SparseBiasLayer =
  outSize :: nat
  sampleSize :: nat
  weights :: "'a Mat"
  delta :: "'a Mat"
  gradient :: "'a Mat"
  inputParameter :: "'a Mat"
  outputParameter :: "'a Mat"
  optimizer :: "nat option"
  ownsOptimizer :: bool

text \<open>
  Layers live at addresses; the methods take and return matrices by reference, and the
  accessors hand out references to the member buffers. A matrix reference therefore
  names either a matrix of the caller or a member buffer of the layer at some address.
  The world holds the layer objects, the set of addresses at which a layer is alive, the
  caller's matrices, the log of \<^verbatim>\<open>delete\<close> calls on optimizers, the next address
  \<^verbatim>\<open>new\<close> hands out, and what the matrix library the program is built with does when
  it is asked to add matrices of different shape.
\<close>

datatype buffer = weights_buf | delta_buf | gradient_buf | inputParameter_buf | outputParameter_buf

datatype mref = Caller nat | Member nat buffer

record 'a world =
  heap :: "nat \<Rightarrow> 'a SparseBiasLayer"
  live :: "nat set"
  mats :: "nat \<Rightarrow> 'a Mat"
  released :: "nat list"
  next_opt :: nat
  nonconforming :: "'a Mat \<Rightarrow> 'a Mat \<Rightarrow> arma_error + 'a Mat"

fun get_buffer :: "buffer \<Rightarrow> 'a SparseBiasLayer \<Rightarrow> 'a Mat" where
  "get_buffer weights_buf L = weights L"
| "get_buffer delta_buf L = delta L"
| "get_buffer gradient_buf L = gradient L"
| "get_buffer inputParameter_buf L = inputParameter L"
| "get_buffer outputParameter_buf L = outputParameter L"

fun set_buffer :: "buffer \<Rightarrow> 'a Mat \<Rightarrow> 'a SparseBiasLayer \<Rightarrow> 'a SparseBiasLayer" where
  "set_buffer weights_buf v L = L\<lparr>weights := v\<rparr>"
| "set_buffer delta_buf v L = L\<lparr>delta := v\<rparr>"
| "set_buffer gradient_buf v L = L\<lparr>gradient := v\<rparr>"
| "set_buffer inputParameter_buf v L = L\<lparr>inputParameter := v\<rparr>"
| "set_buffer outputParameter_buf v L = L\<lparr>outputParameter := v\<rparr>"

fun read_mat :: "'a world \<Rightarrow> mref \<Rightarrow> 'a Mat" where
  "read_mat w (Caller k) = mats w k"
| "read_mat w (Member p b) = get_buffer b (heap w p)"

fun write_mat :: "mref \<Rightarrow> 'a Mat \<Rightarrow> 'a world \<Rightarrow> 'a world" where
  "write_mat (Caller k) v w = w\<lparr>mats := (mats w)(k := v)\<rparr>"
| "write_mat (Member p b) v w = w\<lparr>heap := (heap w)(p := set_buffer b v (heap w p))\<rparr>"

definition update_layer ::
  "nat \<Rightarrow> ('a SparseBiasLayer \<Rightarrow> 'a SparseBiasLayer) \<Rightarrow> 'a world \<Rightarrow> 'a world" where
  "update_layer p f w = w\<lparr>heap := (heap w)(p := f (heap w p))\<rparr>"

definition swap_mat :: "mref \<Rightarrow> mref \<Rightarrow> 'a world \<Rightarrow> 'a world" where
  \<comment> \<open>\<^verbatim>\<open>a.swap(b)\<close>\<close>
  "swap_mat a b w =
     (let x = read_mat w a; y = read_mat w b
      in write_mat b x (write_mat a y w))"


subsection \<open>Accessors\<close>

text \<open>Each modifying accessor returns a reference to the member buffer.\<close>

definition Weights :: "nat \<Rightarrow> mref" where
  "Weights this = Member this weights_buf"




definition Gradient_accessor :: "nat \<Rightarrow> mref" where
  "Gradient_accessor this = Member this gradient_buf"


subsection \<open>Forward, Backward, Gradient\<close>

definition Forward :: "nat \<Rightarrow> mref \<Rightarrow> mref \<Rightarrow> ('a::plus) world \<Rightarrow> arma_error + 'a world" where
  \<comment> \<open>\<^verbatim>\<open>output = input + arma::repmat(weights, 1, input.n_cols);\<close>\<close>
  "Forward this input output w =
     (case arma_plus (nonconforming w) (read_mat w input)
             (repmat (weights (heap w this)) 1 (n_cols (read_mat w input))) of
        Inl e \<Rightarrow> Inl e
      | Inr v \<Rightarrow> Inr (write_mat output v w))"

definition Backward :: "nat \<Rightarrow> mref \<Rightarrow> mref \<Rightarrow> mref \<Rightarrow> 'a world \<Rightarrow> 'a world" where
  \<comment> \<open>\<^verbatim>\<open>g = gy;\<close> the first argument is unnamed and unused\<close>
  "Backward this input gy g w = write_mat g (read_mat w gy) w"

definition Gradient :: "nat \<Rightarrow> mref \<Rightarrow> mref \<Rightarrow> ('a::field) world \<Rightarrow> 'a world" where
  \<comment> \<open>\<^verbatim>\<open>g = arma::sum(d, 1) / static_cast<inputDataType>(sampleSize);\<close>\<close>
  "Gradient this d g w =
     write_mat g (arma_div (arma_sum_1 (read_mat w d)) (of_nat (sampleSize (heap w this)))) w"


subsection \<open>Layer traits\<close>

record LayerTraits =
  IsBinary :: bool
  IsOutputLayer :: bool
  IsBiasLayer :: bool
  IsLSTMLayer :: bool
  IsConnection :: bool

definition LayerTraits_SparseBiasLayer :: "'optimizerType \<Rightarrow> 'weightInitRule \<Rightarrow> LayerTraits" where
  \<comment> \<open>the specialisation \<^verbatim>\<open>LayerTraits<SparseBiasLayer<...> >\<close>, for any template arguments\<close>
  "LayerTraits_SparseBiasLayer optimizerType weightInitRule =
     \<lparr>IsBinary = False, IsOutputLayer = False, IsBiasLayer = True,
      IsLSTMLayer = False, IsConnection = True\<rparr>"


section \<open>Construction, move and destruction\<close>

definition ZeroInitialization :: "('a::zero) Mat \<Rightarrow> nat \<Rightarrow> nat \<Rightarrow> 'a Mat" where
  \<comment> \<open>Modelled from the spec: \<^verbatim>\<open>zero_init.hpp\<close>, the default \<^verbatim>\<open>WeightInitRule\<close>, is not among
      the sources; \<^verbatim>\<open>Initialize(buffer, rows, cols)\<close> fills \<open>buffer\<close>, resized to
      \<open>rows \<times> cols\<close>, with initial values, here zeros.\<close>
  "ZeroInitialization W r c = zeros r c"

definition delete_optimizer :: "nat option \<Rightarrow> 'a world \<Rightarrow> 'a world" where
  \<comment> \<open>\<^verbatim>\<open>delete optimizer;\<close> does nothing on \<^verbatim>\<open>nullptr\<close>\<close>
  "delete_optimizer p w =
     (case p of None \<Rightarrow> w | Some a \<Rightarrow> w\<lparr>released := released w @ [a]\<rparr>)"

definition construct ::
  "nat \<Rightarrow> nat \<Rightarrow> nat \<Rightarrow> ('a Mat \<Rightarrow> nat \<Rightarrow> nat \<Rightarrow> 'a Mat) \<Rightarrow> 'a world \<Rightarrow> 'a world" where
  \<comment> \<open>\<^verbatim>\<open>SparseBiasLayer(outSize, sampleSize, weightInitRule)\<close> at address \<open>this\<close>: the
      initialiser list, with \<^verbatim>\<open>new OptimizerType<...>(*this)\<close>, then
      \<^verbatim>\<open>weightInitRule.Initialize(weights, outSize, 1)\<close>\<close>
  "construct this n s weightInitRule w =
     (let L = \<lparr>outSize = n, sampleSize = s, weights = empty_Mat, delta = empty_Mat,
               gradient = empty_Mat, inputParameter = empty_Mat,
               outputParameter = empty_Mat, optimizer = Some (next_opt w),
               ownsOptimizer = True\<rparr>;
          w1 = w\<lparr>heap := (heap w)(this := L), live := insert this (live w),
                 next_opt := Suc (next_opt w)\<rparr>
      in update_layer this (\<lambda>L. L\<lparr>weights := weightInitRule (weights L) (outSize L) 1\<rparr>) w1)"

definition operator_assign :: "nat \<Rightarrow> nat \<Rightarrow> 'a world \<Rightarrow> 'a world" where
  \<comment> \<open>\<^verbatim>\<open>operator=(SparseBiasLayer &&layer)\<close> on the object at \<open>this\<close>: its eleven
      statements, run in order, each on the world the previous one left; \<open>this\<close> and
      \<open>layer\<close> may be the same address\<close>
  "operator_assign this layer w0 =
     foldl (\<lambda>w statement. statement w) w0
       [\<lambda>w. update_layer this (\<lambda>L. L\<lparr>optimizer := optimizer (heap w layer)\<rparr>) w,
        \<lambda>w. update_layer this (\<lambda>L. L\<lparr>ownsOptimizer := ownsOptimizer (heap w layer)\<rparr>) w,
        \<lambda>w. update_layer layer (\<lambda>L. L\<lparr>optimizer := None\<rparr>) w,
        \<lambda>w. update_layer layer (\<lambda>L. L\<lparr>ownsOptimizer := False\<rparr>) w,
        \<lambda>w. update_layer this (\<lambda>L. L\<lparr>outSize := outSize (heap w layer)\<rparr>) w,
        \<lambda>w. update_layer this (\<lambda>L. L\<lparr>sampleSize := sampleSize (heap w layer)\<rparr>) w,
        swap_mat (Member this weights_buf) (Member layer weights_buf),
        swap_mat (Member this delta_buf) (Member layer delta_buf),
        swap_mat (Member this gradient_buf) (Member layer gradient_buf),
        swap_mat (Member this inputParameter_buf) (Member layer inputParameter_buf),
        swap_mat (Member this outputParameter_buf) (Member layer outputParameter_buf)]"

definition move_construct :: "nat \<Rightarrow> nat \<Rightarrow> 'a world \<Rightarrow> 'a world" where
  \<comment> \<open>\<^verbatim>\<open>SparseBiasLayer(SparseBiasLayer &&layer)\<close> at address \<open>this\<close>: no initialiser list,
      so the five matrices are default-constructed and the scalar members, the pointer and
      the flag hold whatever the storage held; then \<^verbatim>\<open>*this = std::move(layer)\<close>\<close>
  "move_construct this layer w =
     (let w1 = update_layer this
                 (\<lambda>L. L\<lparr>weights := empty_Mat, delta := empty_Mat, gradient := empty_Mat,
                        inputParameter := empty_Mat, outputParameter := empty_Mat\<rparr>) w;
          w2 = w1\<lparr>live := insert this (live w1)\<rparr>
      in operator_assign this layer w2)"

definition destroy :: "nat \<Rightarrow> 'a world \<Rightarrow> 'a world" where
  \<comment> \<open>\<^verbatim>\<open>~SparseBiasLayer()\<close>: \<^verbatim>\<open>if (ownsOptimizer) delete optimizer;\<close> and the object is gone\<close>
  "destroy this w =
     (let w1 = (if ownsOptimizer (heap w this)
                then delete_optimizer (optimizer (heap w this)) w else w)
      in w1\<lparr>live := live w1 - {this}\<rparr>)"


section \<open>Programs over the layer's public interface\<close>

text \<open>
  A caller's program is a sequence of operations of the class: the constructor, the move
  constructor, move assignment, the destructor, the three methods, and an assignment
  through a matrix reference (an accessor's or the caller's own). An operation on an
  address where no layer is alive, or a construction where one is, is not a program
  (\<open>None\<close>). A \<^verbatim>\<open>Forward\<close> in which the library raises its exception leaves the
  world as it was.
\<close>

datatype 'a operation =
    Construct nat nat nat "'a Mat \<Rightarrow> nat \<Rightarrow> nat \<Rightarrow> 'a Mat"
  | MoveConstruct nat nat
  | MoveAssign nat nat
  | Destroy nat
  | CallForward nat mref mref
  | CallBackward nat mref mref mref
  | CallGradient nat mref mref
  | Assign mref "'a Mat"

fun ref_alive :: "'a world \<Rightarrow> mref \<Rightarrow> bool" where
  "ref_alive w (Caller k) = True"
| "ref_alive w (Member p b) = (p \<in> live w)"

fun step :: "('a::field) operation \<Rightarrow> 'a world \<Rightarrow> 'a world option" where
  "step (Construct this n s rule) w =
     (if this \<in> live w then None else Some (construct this n s rule w))"
| "step (MoveConstruct this layer) w =
     (if this \<in> live w \<or> layer \<notin> live w then None else Some (move_construct this layer w))"
| "step (MoveAssign this layer) w =
     (if this \<in> live w \<and> layer \<in> live w then Some (operator_assign this layer w) else None)"
| "step (Destroy this) w =
     (if this \<in> live w then Some (destroy this w) else None)"
| "step (CallForward this input output) w =
     (if this \<in> live w \<and> ref_alive w input \<and> ref_alive w output
      then (case Forward this input output w of Inl e \<Rightarrow> Some w | Inr w' \<Rightarrow> Some w')
      else None)"
| "step (CallBackward this input gy g) w =
     (if this \<in> live w \<and> ref_alive w input \<and> ref_alive w gy \<and> ref_alive w g
      then Some (Backward this input gy g w) else None)"
| "step (CallGradient this d g) w =
     (if this \<in> live w \<and> ref_alive w d \<and> ref_alive w g
      then Some (Gradient this d g w) else None)"
| "step (Assign r v) w =
     (if ref_alive w r then Some (write_mat r v w) else None)"

fun run :: "('a::field) operation list \<Rightarrow> 'a world \<Rightarrow> 'a world option" where
  "run [] w = Some w"
| "run (x # xs) w = (case step x w of None \<Rightarrow> None | Some w' \<Rightarrow> run xs w')"

definition blank_layer :: "'a SparseBiasLayer" where
  "blank_layer =
     \<lparr>outSize = 0, sampleSize = 0, weights = empty_Mat, delta = empty_Mat,
      gradient = empty_Mat, inputParameter = empty_Mat, outputParameter = empty_Mat,
      optimizer = None, ownsOptimizer = False\<rparr>"

definition initial_world :: "('a::plus) world" where
  \<comment> \<open>a world in which no layer has been constructed, with the matrix library of the
      reference behaviour; used for the concrete runs below\<close>
  "initial_world =
     \<lparr>heap = (\<lambda>p. blank_layer), live = {}, mats = (\<lambda>k. empty_Mat), released = [],
      next_opt = 0, nonconforming = proceeds\<rparr>"


section \<open>Concrete worlds\<close>

text \<open>
  The scenarios of the specification, built from the operations above: a layer with
  three units, sample size 2 and weights \<open>(1, 2, 3)\<close> and a \<open>3 \<times> 2\<close> zero input; the
  same layer with the error matrix whose rows are \<open>(2, 4)\<close>.
\<close>

definition forward_world :: "real world" where
  "forward_world =
     write_mat (Caller 0) (zeros 3 2)
       (write_mat (Weights 0) \<lparr>n_rows = 3, n_cols = 1, mem = [1, 2, 3]\<rparr>
          (construct 0 3 2 ZeroInitialization initial_world))"

definition gradient_world :: "real world" where
  "gradient_world =
     write_mat (Caller 0) \<lparr>n_rows = 3, n_cols = 2, mem = [2, 2, 2, 4, 4, 4]\<rparr>
       (construct 0 3 2 ZeroInitialization initial_world)"

text \<open>
  A layer constructed with two units, weights as the constructor left them, and a
  three-row input.
\<close>

definition mismatch_world :: "real world" where
  "mismatch_world =
     write_mat (Caller 0) \<lparr>n_rows = 3, n_cols = 1, mem = [10, 20, 30]\<rparr>
       (construct 0 2 1 ZeroInitialization initial_world)"

text \<open>
  Two layers, of two units at address 0 and of three units at address 1, each owning the
  optimizer its constructor created; and the same world after the caller has filled the
  four other buffers of the layer at address 1.
\<close>

definition two_layers_world :: "real world" where
  "two_layers_world =
     construct 1 3 1 ZeroInitialization (construct 0 2 1 ZeroInitialization initial_world)"



section \<open>Ownership of optimizers\<close>

text \<open>
  At most one live layer owns any optimizer. That alone is not preserved by the
  constructor, which relies on \<^verbatim>\<open>new\<close> returning an address no layer holds; the
  invariant of the worlds a program can reach adds that an owned optimizer has been
  allocated and not released, and that no optimizer has been released twice.
\<close>

definition single_owner :: "'a world \<Rightarrow> bool" where
  "single_owner w \<longleftrightarrow>
     (\<forall>p\<in>live w. \<forall>q\<in>live w.
        ownsOptimizer (heap w p) \<and> ownsOptimizer (heap w q) \<and>
        optimizer (heap w p) = optimizer (heap w q) \<longrightarrow> p = q)"

definition ownership_inv :: "'a world \<Rightarrow> bool" where
  "ownership_inv w \<longleftrightarrow>
     (\<forall>p\<in>live w. ownsOptimizer (heap w p) \<longrightarrow>
        (case optimizer (heap w p) of None \<Rightarrow> False
         | Some a \<Rightarrow> a < next_opt w \<and> a \<notin> set (released w))) \<and>
     single_owner w \<and>
     (\<forall>a\<in>set (released w). a < next_opt w) \<and>
     distinct (released w)"

text \<open>An allocated optimizer that has not been released and that no live layer owns.\<close>

definition orphaned :: "nat \<Rightarrow> 'a world \<Rightarrow> bool" where
  "orphaned a w \<longleftrightarrow>
     a < next_opt w \<and> a \<notin> set (released w) \<and>
     (\<forall>p\<in>live w. ownsOptimizer (heap w p) \<longrightarrow> optimizer (heap w p) \<noteq> Some a)"




section \<open>Properties of the matrix operations\<close>

lemma nth_concat_cols:
  "j < c \<Longrightarrow> i < r \<Longrightarrow>
   concat (map (\<lambda>j. map (\<lambda>i. f i j) [0..<r]) [0..<c]) ! (i + j * r) = f i j"
proof (induction c)
  case 0
  then show ?case by simp
next
  case (Suc c)
  have len: "length (concat (map (\<lambda>j. map (\<lambda>i. f i j) [0..<r]) [0..<c])) = c * r"
    by (induction c) simp_all
  show ?case
  proof (cases "j < c")
    case True
    then have "Suc j \<le> c" by simp
    then have "Suc j * r \<le> c * r" by (rule mult_le_mono1)
    with Suc.prems(2) have "i + j * r < c * r" by simp
    with True Suc show ?thesis by (simp add: nth_append len)
  next
    case False
    with Suc.prems have "j = c" by simp
    with Suc.prems show ?thesis by (simp add: nth_append len)
  qed
qed

lemma n_rows_generate [simp]: "n_rows (generate r c f) = r"
  by (simp add: generate_def)

lemma n_cols_generate [simp]: "n_cols (generate r c f) = c"
  by (simp add: generate_def)

lemma wf_generate [simp]: "wf_Mat (generate r c f)"
  unfolding wf_Mat_def generate_def by (induction c) simp_all

lemma elem_generate [simp]: "i < r \<Longrightarrow> j < c \<Longrightarrow> elem (generate r c f) i j = f i j"
  by (simp add: elem_def generate_def nth_concat_cols)

lemma sum_list_upt: "sum_list (map f [0..<n]) = (\<Sum>k<n. f k)"
  by (induction n) simp_all

lemma arma_sum_div_shape:
  "n_rows (arma_div (arma_sum_1 X) s) = n_rows X"
  "n_cols (arma_div (arma_sum_1 X) s) = 1"
  "wf_Mat (arma_div (arma_sum_1 X) s)"
  using wf_generate [of "n_rows X" 1]
  by (simp_all add: arma_div_def arma_sum_1_def wf_Mat_def)

lemma arma_sum_div_elem:
  assumes "i < n_rows X"
  shows "elem (arma_div (arma_sum_1 X) s) i 0 = (\<Sum>j<n_cols X. elem X i j) / s"
proof -
  have len: "length (mem (arma_sum_1 X)) = n_rows X"
    using wf_generate [of "n_rows X" 1] by (simp add: arma_sum_1_def wf_Mat_def)
  have "elem (arma_sum_1 X) i 0 = (\<Sum>j<n_cols X. elem X i j)"
    using assms by (simp add: arma_sum_1_def sum_list_upt)
  moreover have "elem (arma_div (arma_sum_1 X) s) i 0 = elem (arma_sum_1 X) i 0 / s"
    using assms len by (simp add: elem_def arma_div_def)
  ultimately show ?thesis by simp
qed

lemma elem_repmat_column:
  assumes "n_cols W = Suc 0" "i < n_rows W" "j < c"
  shows "elem (repmat W (Suc 0) c) i j = elem W i 0"
  using assms by (simp add: repmat_def)


section \<open>Reading and writing through references\<close>

lemma get_set_buffer:
  "get_buffer b (set_buffer b' v L) = (if b = b' then v else get_buffer b L)"
  by (cases b; cases b') simp_all

lemma set_buffer_scalars [simp]:
  "outSize (set_buffer b v L) = outSize L"
  "sampleSize (set_buffer b v L) = sampleSize L"
  "optimizer (set_buffer b v L) = optimizer L"
  "ownsOptimizer (set_buffer b v L) = ownsOptimizer L"
  by (cases b; simp)+

lemma read_write_same [simp]: "read_mat (write_mat r v w) r = v"
  by (cases r) (simp_all add: get_set_buffer)

lemma read_write_other: "r \<noteq> g \<Longrightarrow> read_mat (write_mat g v w) r = read_mat w r"
  by (cases r; cases g) (auto simp: get_set_buffer)

lemma write_mat_frame [simp]:
  "live (write_mat g v w) = live w"
  "released (write_mat g v w) = released w"
  "next_opt (write_mat g v w) = next_opt w"
  "nonconforming (write_mat g v w) = nonconforming w"
  "outSize (heap (write_mat g v w) p) = outSize (heap w p)"
  "sampleSize (heap (write_mat g v w) p) = sampleSize (heap w p)"
  "optimizer (heap (write_mat g v w) p) = optimizer (heap w p)"
  "ownsOptimizer (heap (write_mat g v w) p) = ownsOptimizer (heap w p)"
  by (cases g; simp)+


section \<open>The three methods\<close>

lemma gradient_world_eval:
  "outSize (heap gradient_world 0) = 3" "sampleSize (heap gradient_world 0) = 2"
  "gradient (heap gradient_world 0) = empty_Mat"
  "mats gradient_world 0 = \<lparr>n_rows = 3, n_cols = 2, mem = [2, 2, 2, 4, 4, 4]\<rparr>"
  by (simp_all add: gradient_world_def construct_def update_layer_def Let_def)

lemma gradient_world_row_sum:
  assumes "i < 3"
  shows "(\<Sum>j<2. elem \<lparr>n_rows = 3, n_cols = 2, mem = [2, 2, 2, 4, 4, 4::real]\<rparr> i j) = 6"
proof -
  from assms have "i = 0 \<or> i = 1 \<or> i = 2" by auto
  then show ?thesis by (auto simp: elem_def lessThan_Suc numeral_2_eq_2)
qed

text \<open>
  C1. \<^verbatim>\<open>Gradient(d, g)\<close> on an error matrix \<open>d\<close> with \<open>outSize\<close> rows leaves in \<open>g\<close> a
  column vector of shape \<open>outSize \<times> 1\<close> whose \<open>i\<close>-th entry is the sum of row \<open>i\<close> of \<open>d\<close>
  divided by the layer's \<open>sampleSize\<close>, whatever the number of columns of \<open>d\<close>.
\<close>

theorem Gradient_row_mean:
  assumes "n_rows (read_mat w d) = outSize (heap w this)"
  shows "n_rows (read_mat (Gradient this d g w) g) = outSize (heap w this) \<and>
         n_cols (read_mat (Gradient this d g w) g) = 1 \<and>
         wf_Mat (read_mat (Gradient this d g w) g) \<and>
         (\<forall>i<outSize (heap w this).
            elem (read_mat (Gradient this d g w) g) i 0 =
            (\<Sum>j<n_cols (read_mat w d). elem (read_mat w d) i j)
              / of_nat (sampleSize (heap w this)))"
  using assms by (simp add: Gradient_def arma_sum_div_shape arma_sum_div_elem)

theorem Gradient_row_mean_witness:
  "n_rows (read_mat gradient_world (Caller 0)) = outSize (heap gradient_world 0) \<and>
   n_rows (read_mat (Gradient 0 (Caller 0) (Caller 1) gradient_world) (Caller 1)) = 3 \<and>
   n_cols (read_mat (Gradient 0 (Caller 0) (Caller 1) gradient_world) (Caller 1)) = 1 \<and>
   elem (read_mat (Gradient 0 (Caller 0) (Caller 1) gradient_world) (Caller 1)) 0 0 = 3 \<and>
   elem (read_mat (Gradient 0 (Caller 0) (Caller 1) gradient_world) (Caller 1)) 1 0 = 3 \<and>
   elem (read_mat (Gradient 0 (Caller 0) (Caller 1) gradient_world) (Caller 1)) 2 0 = 3"
proof -
  have h: "n_rows (read_mat gradient_world (Caller 0)) = outSize (heap gradient_world 0)"
    by (simp add: gradient_world_eval)
  show ?thesis
    using h Gradient_row_mean [OF h, of "Caller 1"]
    by (simp add: gradient_world_eval gradient_world_row_sum)
qed

lemma forward_world_eval:
  "outSize (heap forward_world 0) = 3"
  "weights (heap forward_world 0) = \<lparr>n_rows = 3, n_cols = 1, mem = [1, 2, 3]\<rparr>"
  "mats forward_world 0 = \<lparr>n_rows = 3, n_cols = 2, mem = [0, 0, 0, 0, 0, 0]\<rparr>"
  by (simp_all add: forward_world_def construct_def update_layer_def Let_def Weights_def
      zeros_def generate_def upt_conv_Cons)

text \<open>
  C2. On a layer whose weights are a column vector of \<open>outSize\<close> entries, \<^verbatim>\<open>Forward\<close> on
  an input with exactly \<open>outSize\<close> rows and any number of columns returns normally, and
  the output has the shape of the input, with column \<open>j\<close> equal to column \<open>j\<close> of the
  input plus the weights vector, for every column \<open>j\<close>.
\<close>

theorem Forward_adds_weights:
  assumes "n_rows (weights (heap w this)) = outSize (heap w this)"
    and "n_cols (weights (heap w this)) = 1"
    and "n_rows (read_mat w input) = outSize (heap w this)"
  shows "\<exists>w'. Forward this input output w = Inr w' \<and>
           n_rows (read_mat w' output) = n_rows (read_mat w input) \<and>
           n_cols (read_mat w' output) = n_cols (read_mat w input) \<and>
           wf_Mat (read_mat w' output) \<and>
           (\<forall>j<n_cols (read_mat w input). \<forall>i<outSize (heap w this).
              elem (read_mat w' output) i j =
              elem (read_mat w input) i j + elem (weights (heap w this)) i 0)"
proof -
  let ?X = "read_mat w input"
  let ?W = "weights (heap w this)"
  let ?Y = "generate (n_rows ?X) (n_cols ?X)
              (\<lambda>i j. elem ?X i j + elem (repmat ?W 1 (n_cols ?X)) i j)"
  have shape: "n_rows (repmat ?W 1 (n_cols ?X)) = n_rows ?X"
      "n_cols (repmat ?W 1 (n_cols ?X)) = n_cols ?X"
    using assms by (simp_all add: repmat_def)
  then have run: "Forward this input output w = Inr (write_mat output ?Y w)"
    by (simp add: Forward_def arma_plus_def)
  have "elem ?Y i j = elem ?X i j + elem ?W i 0"
    if "j < n_cols ?X" "i < outSize (heap w this)" for i j
    using that assms by (simp add: elem_repmat_column)
  with run show ?thesis by simp
qed

theorem Forward_adds_weights_witness:
  "n_rows (weights (heap forward_world 0)) = outSize (heap forward_world 0) \<and>
   n_cols (weights (heap forward_world 0)) = 1 \<and>
   n_rows (read_mat forward_world (Caller 0)) = outSize (heap forward_world 0) \<and>
   (\<exists>w'. Forward 0 (Caller 0) (Caller 1) forward_world = Inr w' \<and>
      n_rows (read_mat w' (Caller 1)) = 3 \<and> n_cols (read_mat w' (Caller 1)) = 2 \<and>
      elem (read_mat w' (Caller 1)) 0 1 = 1 \<and> elem (read_mat w' (Caller 1)) 1 1 = 2 \<and>
      elem (read_mat w' (Caller 1)) 2 1 = 3)"
proof -
  have h: "n_rows (weights (heap forward_world 0)) = outSize (heap forward_world 0)"
      "n_cols (weights (heap forward_world 0)) = 1"
      "n_rows (read_mat forward_world (Caller 0)) = outSize (heap forward_world 0)"
    by (simp_all add: forward_world_eval)
  from Forward_adds_weights [OF h, of "Caller 1"] obtain w' where
    w': "Forward 0 (Caller 0) (Caller 1) forward_world = Inr w'"
      "n_rows (read_mat w' (Caller 1)) = n_rows (read_mat forward_world (Caller 0))"
      "n_cols (read_mat w' (Caller 1)) = n_cols (read_mat forward_world (Caller 0))"
      "\<forall>j<n_cols (read_mat forward_world (Caller 0)). \<forall>i<outSize (heap forward_world 0).
         elem (read_mat w' (Caller 1)) i j =
         elem (read_mat forward_world (Caller 0)) i j + elem (weights (heap forward_world 0)) i 0"
    by blast
  from w'(4) have e: "elem (read_mat w' (Caller 1)) i 1 =
      elem (read_mat forward_world (Caller 0)) i 1 + elem (weights (heap forward_world 0)) i 0"
    if "i < 3" for i
    using that by (simp add: forward_world_eval)
  have "elem (read_mat forward_world (Caller 0)) 0 1 + elem (weights (heap forward_world 0)) 0 0 = 1"
      "elem (read_mat forward_world (Caller 0)) 1 1 + elem (weights (heap forward_world 0)) 1 0 = 2"
      "elem (read_mat forward_world (Caller 0)) 2 1 + elem (weights (heap forward_world 0)) 2 0 = 3"
    by (simp_all add: forward_world_eval elem_def)
  with e [of 0] e [of 1] e [of 2]
  have "elem (read_mat w' (Caller 1)) 0 1 = 1" "elem (read_mat w' (Caller 1)) 1 1 = 2"
      "elem (read_mat w' (Caller 1)) 2 1 = 3"
    by simp_all
  with h w'(1,2,3) show ?thesis by (simp add: forward_world_eval)
qed

text \<open>
  C3. \<^verbatim>\<open>Backward(input, gy, g)\<close> leaves in \<open>g\<close> exactly the matrix \<open>gy\<close>, of the same
  shape, and the world it produces is the same whatever is passed as \<open>input\<close>.
\<close>

theorem Backward_identity:
  "read_mat (Backward this input gy g w) g = read_mat w gy \<and>
   n_rows (read_mat (Backward this input gy g w) g) = n_rows (read_mat w gy) \<and>
   n_cols (read_mat (Backward this input gy g w) g) = n_cols (read_mat w gy) \<and>
   Backward this input gy g w = Backward this input' gy g w"
  by (simp add: Backward_def)

lemma mismatch_world_eval:
  "outSize (heap mismatch_world 0) = 2"
  "weights (heap mismatch_world 0) = \<lparr>n_rows = 2, n_cols = 1, mem = [0, 0]\<rparr>"
  "mats mismatch_world 0 = \<lparr>n_rows = 3, n_cols = 1, mem = [10, 20, 30]\<rparr>"
  by (simp_all add: mismatch_world_def construct_def update_layer_def Let_def
      ZeroInitialization_def zeros_def generate_def upt_conv_Cons)

lemma Forward_nonconforming:
  assumes "n_rows (read_mat w input) \<noteq> n_rows (weights (heap w this))"
  shows "Forward this input output w =
     (case nonconforming w (read_mat w input)
             (repmat (weights (heap w this)) 1 (n_cols (read_mat w input))) of
        Inl e \<Rightarrow> Inl e
      | Inr v \<Rightarrow> Inr (write_mat output v w))"
  using assms by (simp add: Forward_def arma_plus_def repmat_def)

text \<open>
  C6, as the code has it. \<^verbatim>\<open>Forward\<close> never reads \<open>outSize\<close>, checks nothing and has
  no error of its own. On a layer whose weights have \<open>outSize\<close> rows, for an input whose
  row count differs from \<open>outSize\<close>, its outcome is that of the library's addition on
  operands of different shape: it fails only if that addition raises. With the
  reference behaviour, which has no error path, it returns, and the output has the row
  count of the input, not \<open>outSize\<close>.
\<close>

theorem Forward_mismatch_outcome:
  assumes "n_rows (weights (heap w this)) = outSize (heap w this)"
    and "n_rows (read_mat w input) \<noteq> outSize (heap w this)"
  shows "Forward this input output w =
           (case nonconforming w (read_mat w input)
                   (repmat (weights (heap w this)) 1 (n_cols (read_mat w input))) of
              Inl e \<Rightarrow> Inl e
            | Inr v \<Rightarrow> Inr (write_mat output v w)) \<and>
         (nonconforming w = proceeds \<longrightarrow>
            (\<exists>w'. Forward this input output w = Inr w' \<and>
               n_rows (read_mat w' output) = n_rows (read_mat w input) \<and>
               n_cols (read_mat w' output) = n_cols (read_mat w input) \<and>
               n_rows (read_mat w' output) \<noteq> outSize (heap w this)))"
proof -
  from assms have ne: "n_rows (read_mat w input) \<noteq> n_rows (weights (heap w this))"
    by simp
  note out = Forward_nonconforming [OF ne, of "output"]
  have "\<exists>w'. Forward this input output w = Inr w' \<and>
      n_rows (read_mat w' output) = n_rows (read_mat w input) \<and>
      n_cols (read_mat w' output) = n_cols (read_mat w input) \<and>
      n_rows (read_mat w' output) \<noteq> outSize (heap w this)"
    if "nonconforming w = proceeds"
    using that assms(2) by (simp add: out proceeds_def)
  with out show ?thesis by blast
qed

lemma initial_world_library: "nonconforming initial_world = proceeds"
  by (simp add: initial_world_def)

lemma mismatch_world_library: "nonconforming mismatch_world = proceeds"
  by (simp add: mismatch_world_def construct_def update_layer_def Let_def
      initial_world_library)

theorem Forward_mismatch_outcome_witness:
  "n_rows (weights (heap mismatch_world 0)) = outSize (heap mismatch_world 0) \<and>
   n_rows (read_mat mismatch_world (Caller 0)) \<noteq> outSize (heap mismatch_world 0) \<and>
   nonconforming mismatch_world = proceeds \<and>
   (\<exists>w'. Forward 0 (Caller 0) (Caller 1) mismatch_world = Inr w' \<and>
      n_rows (read_mat w' (Caller 1)) = 3 \<and> n_cols (read_mat w' (Caller 1)) = 1)"
proof -
  have h: "n_rows (weights (heap mismatch_world 0)) = outSize (heap mismatch_world 0)"
      "n_rows (read_mat mismatch_world (Caller 0)) \<noteq> outSize (heap mismatch_world 0)"
    by (simp_all add: mismatch_world_eval)
  from Forward_mismatch_outcome [OF h, of "Caller 1"] mismatch_world_library
  obtain w' where "Forward 0 (Caller 0) (Caller 1) mismatch_world = Inr w'"
    "n_rows (read_mat w' (Caller 1)) = n_rows (read_mat mismatch_world (Caller 0))"
    "n_cols (read_mat w' (Caller 1)) = n_cols (read_mat mismatch_world (Caller 0))"
    by blast
  then have "\<exists>w'. Forward 0 (Caller 0) (Caller 1) mismatch_world = Inr w' \<and>
      n_rows (read_mat w' (Caller 1)) = 3 \<and> n_cols (read_mat w' (Caller 1)) = 1"
    by (simp add: mismatch_world_eval)
  with h mismatch_world_library show ?thesis by blast
qed

text \<open>
  C6, as the specification states it, fails in its own scenario: on the layer
  constructed with \<open>outSize = 2\<close> and an input of three rows, \<^verbatim>\<open>Forward\<close> with the
  reference behaviour of the library does not fail; it leaves an output of three rows.
\<close>

theorem Forward_mismatch_counterexample:
  "outSize (heap mismatch_world 0) = 2 \<and>
   n_rows (weights (heap mismatch_world 0)) = 2 \<and>
   n_rows (read_mat mismatch_world (Caller 0)) = 3 \<and>
   \<not> isl (Forward 0 (Caller 0) (Caller 1) mismatch_world) \<and>
   n_rows (read_mat (projr (Forward 0 (Caller 0) (Caller 1) mismatch_world)) (Caller 1)) = 3"
  by (simp add: Forward_def arma_plus_def repmat_def mismatch_world_eval
      mismatch_world_library proceeds_def)

text \<open>
  C7. The traits of the layer are the constant record with \<open>IsBiasLayer\<close> and
  \<open>IsConnection\<close> true and the three other flags false, for every choice of the template
  arguments; they are no part of the world, so no operation changes them.
\<close>

theorem LayerTraits_constant:
  "IsBinary (LayerTraits_SparseBiasLayer optimizerType weightInitRule) = False \<and>
   IsOutputLayer (LayerTraits_SparseBiasLayer optimizerType weightInitRule) = False \<and>
   IsBiasLayer (LayerTraits_SparseBiasLayer optimizerType weightInitRule) = True \<and>
   IsLSTMLayer (LayerTraits_SparseBiasLayer optimizerType weightInitRule) = False \<and>
   IsConnection (LayerTraits_SparseBiasLayer optimizerType weightInitRule) = True"
  by (simp add: LayerTraits_SparseBiasLayer_def)

text \<open>
  C10, as the code has it. \<^verbatim>\<open>Gradient(d, g)\<close> writes the matrix that \<open>g\<close> refers to and
  nothing else: every other matrix, the scalar members, the optimizer pointer and the
  ownership flag of every layer, the set of live layers and the optimizers keep their
  values; when \<open>g\<close> is a matrix of the caller, the layer objects are unchanged altogether.
\<close>

theorem Gradient_frame:
  "(\<forall>r. r \<noteq> g \<longrightarrow> read_mat (Gradient this d g w) r = read_mat w r) \<and>
   (\<forall>p. outSize (heap (Gradient this d g w) p) = outSize (heap w p) \<and>
        sampleSize (heap (Gradient this d g w) p) = sampleSize (heap w p) \<and>
        optimizer (heap (Gradient this d g w) p) = optimizer (heap w p) \<and>
        ownsOptimizer (heap (Gradient this d g w) p) = ownsOptimizer (heap w p)) \<and>
   live (Gradient this d g w) = live w \<and>
   released (Gradient this d g w) = released w \<and>
   next_opt (Gradient this d g w) = next_opt w \<and>
   (\<forall>k. g = Caller k \<longrightarrow> heap (Gradient this d g w) = heap w)"
  by (auto simp: Gradient_def read_write_other)

theorem Gradient_frame_witness:
  "Gradient_accessor 0 \<noteq> Caller 1 \<and>
   read_mat (Gradient 0 (Caller 0) (Caller 1) gradient_world) (Gradient_accessor 0) = empty_Mat \<and>
   heap (Gradient 0 (Caller 0) (Caller 1) gradient_world) = heap gradient_world"
proof -
  have h: "Gradient_accessor 0 \<noteq> Caller 1"
    by (simp add: Gradient_accessor_def)
  have "read_mat gradient_world (Gradient_accessor 0) = empty_Mat"
    by (simp add: Gradient_accessor_def gradient_world_eval)
  with h Gradient_frame [of "Caller 1" 0 "Caller 0" gradient_world] show ?thesis
    by simp
qed

text \<open>
  C10, as the specification states it, fails when the caller passes the layer's own
  gradient buffer, the reference the accessor returns, as \<open>g\<close>: the stored buffer, empty
  before the call, holds the result after it.
\<close>

theorem Gradient_frame_counterexample:
  "gradient (heap gradient_world 0) = empty_Mat \<and>
   gradient (heap (Gradient 0 (Caller 0) (Gradient_accessor 0) gradient_world) 0) =
     \<lparr>n_rows = 3, n_cols = 1, mem = [3, 3, 3]\<rparr> \<and>
   gradient (heap (Gradient 0 (Caller 0) (Gradient_accessor 0) gradient_world) 0) \<noteq>
     gradient (heap gradient_world 0)"
  by (simp add: Gradient_def Gradient_accessor_def gradient_world_eval arma_div_def
      arma_sum_1_def generate_def elem_def upt_conv_Cons empty_Mat_def)


section \<open>Effects of construction, move and destruction\<close>

lemma construct_frame [simp]:
  "live (construct this n s rule w) = insert this (live w)"
  "mats (construct this n s rule w) = mats w"
  "released (construct this n s rule w) = released w"
  "next_opt (construct this n s rule w) = Suc (next_opt w)"
  by (simp_all add: construct_def update_layer_def Let_def)

lemma construct_heap:
  "heap (construct this n s rule w) =
     (heap w)(this := \<lparr>outSize = n, sampleSize = s, weights = rule empty_Mat n 1,
        delta = empty_Mat, gradient = empty_Mat, inputParameter = empty_Mat,
        outputParameter = empty_Mat, optimizer = Some (next_opt w), ownsOptimizer = True\<rparr>)"
  by (simp add: construct_def update_layer_def Let_def)

lemma operator_assign_heap:
  assumes "this \<noteq> layer"
  shows "heap (operator_assign this layer w) =
    (heap w)(this := heap w layer,
             layer := (heap w layer)\<lparr>optimizer := None, ownsOptimizer := False,
               weights := weights (heap w this), delta := delta (heap w this),
               gradient := gradient (heap w this),
               inputParameter := inputParameter (heap w this),
               outputParameter := outputParameter (heap w this)\<rparr>)"
  using assms
  by (simp add: operator_assign_def update_layer_def swap_mat_def Let_def fun_eq_iff)

lemma operator_assign_self:
  "heap (operator_assign p p w) =
     (heap w)(p := (heap w p)\<lparr>optimizer := None, ownsOptimizer := False\<rparr>)"
  by (simp add: operator_assign_def update_layer_def swap_mat_def Let_def fun_eq_iff)

lemma operator_assign_frame [simp]:
  "live (operator_assign this layer w) = live w"
  "mats (operator_assign this layer w) = mats w"
  "released (operator_assign this layer w) = released w"
  "next_opt (operator_assign this layer w) = next_opt w"
proof -
  have "live (operator_assign this layer w) = live w \<and>
        mats (operator_assign this layer w) = mats w \<and>
        released (operator_assign this layer w) = released w \<and>
        next_opt (operator_assign this layer w) = next_opt w"
  proof (cases "this = layer")
    case True
    then show ?thesis
      by (simp add: operator_assign_def update_layer_def swap_mat_def Let_def)
  next
    case False
    then show ?thesis
      by (simp add: operator_assign_def update_layer_def swap_mat_def Let_def)
  qed
  then show "live (operator_assign this layer w) = live w"
    "mats (operator_assign this layer w) = mats w"
    "released (operator_assign this layer w) = released w"
    "next_opt (operator_assign this layer w) = next_opt w"
    by simp_all
qed

lemma operator_assign_owner:
  "optimizer (heap (operator_assign this layer w) p) =
     (if p = layer then None else if p = this then optimizer (heap w layer)
      else optimizer (heap w p))"
  "ownsOptimizer (heap (operator_assign this layer w) p) =
     (if p = layer then False else if p = this then ownsOptimizer (heap w layer)
      else ownsOptimizer (heap w p))"
  by (cases "this = layer"; simp add: operator_assign_heap operator_assign_self)+

lemma move_construct_frame [simp]:
  "live (move_construct this layer w) = insert this (live w)"
  "mats (move_construct this layer w) = mats w"
  "released (move_construct this layer w) = released w"
  "next_opt (move_construct this layer w) = next_opt w"
  by (simp_all add: move_construct_def update_layer_def Let_def)

lemma move_construct_heap:
  assumes "this \<noteq> layer"
  shows "heap (move_construct this layer w) =
    (heap w)(this := heap w layer,
             layer := (heap w layer)\<lparr>optimizer := None, ownsOptimizer := False,
               weights := empty_Mat, delta := empty_Mat, gradient := empty_Mat,
               inputParameter := empty_Mat, outputParameter := empty_Mat\<rparr>)"
  using assms
  by (simp add: move_construct_def operator_assign_heap update_layer_def Let_def fun_eq_iff)

lemma move_construct_owner:
  assumes "this \<noteq> layer"
  shows "optimizer (heap (move_construct this layer w) p) =
     (if p = layer then None else if p = this then optimizer (heap w layer)
      else optimizer (heap w p))"
  "ownsOptimizer (heap (move_construct this layer w) p) =
     (if p = layer then False else if p = this then ownsOptimizer (heap w layer)
      else ownsOptimizer (heap w p))"
  using assms by (simp_all add: move_construct_heap)

lemma destroy_frame [simp]:
  "live (destroy this w) = live w - {this}"
  "mats (destroy this w) = mats w"
  "heap (destroy this w) = heap w"
  "next_opt (destroy this w) = next_opt w"
  by (simp_all add: destroy_def delete_optimizer_def Let_def split: option.split)

lemma released_destroy:
  "released (destroy this w) =
     released w @ (if ownsOptimizer (heap w this)
                   then (case optimizer (heap w this) of None \<Rightarrow> [] | Some a \<Rightarrow> [a])
                   else [])"
  by (simp add: destroy_def delete_optimizer_def Let_def split: option.split)


section \<open>The ownership invariant\<close>

lemma ownership_invI:
  assumes "\<And>p. p \<in> live w \<Longrightarrow> ownsOptimizer (heap w p) \<Longrightarrow>
             \<exists>a. optimizer (heap w p) = Some a \<and> a < next_opt w \<and> a \<notin> set (released w)"
    and "\<And>p q. p \<in> live w \<Longrightarrow> q \<in> live w \<Longrightarrow> ownsOptimizer (heap w p) \<Longrightarrow>
             ownsOptimizer (heap w q) \<Longrightarrow> optimizer (heap w p) = optimizer (heap w q) \<Longrightarrow> p = q"
    and "\<And>a. a \<in> set (released w) \<Longrightarrow> a < next_opt w"
    and "distinct (released w)"
  shows "ownership_inv w"
  unfolding ownership_inv_def single_owner_def
proof (intro conjI ballI impI)
  fix p assume "p \<in> live w" "ownsOptimizer (heap w p)"
  from assms(1) [OF this]
  show "case optimizer (heap w p) of None \<Rightarrow> False
        | Some a \<Rightarrow> a < next_opt w \<and> a \<notin> set (released w)"
    by auto
next
  fix p q assume "p \<in> live w" "q \<in> live w"
    "ownsOptimizer (heap w p) \<and> ownsOptimizer (heap w q) \<and>
     optimizer (heap w p) = optimizer (heap w q)"
  then show "p = q" using assms(2) by blast
next
  fix a assume "a \<in> set (released w)" then show "a < next_opt w" by (rule assms(3))
next
  show "distinct (released w)" by (rule assms(4))
qed

lemma ownership_inv_owned:
  assumes "ownership_inv w" "p \<in> live w" "ownsOptimizer (heap w p)"
  shows "\<exists>a. optimizer (heap w p) = Some a \<and> a < next_opt w \<and> a \<notin> set (released w)"
  using assms unfolding ownership_inv_def by (auto split: option.splits)

lemma ownership_inv_unique:
  assumes "ownership_inv w" "p \<in> live w" "q \<in> live w"
    and "ownsOptimizer (heap w p)" "ownsOptimizer (heap w q)"
    and "optimizer (heap w p) = optimizer (heap w q)"
  shows "p = q"
  using assms unfolding ownership_inv_def single_owner_def by blast

lemma ownership_inv_released:
  assumes "ownership_inv w"
  shows "\<And>a. a \<in> set (released w) \<Longrightarrow> a < next_opt w" "distinct (released w)"
  using assms unfolding ownership_inv_def by auto

lemma ownership_inv_cong:
  assumes inv: "ownership_inv w"
    and lv: "live w' \<subseteq> live w"
    and rel: "released w' = released w" and nxt: "next_opt w' = next_opt w"
    and opt: "\<And>p. optimizer (heap w' p) = optimizer (heap w p)"
    and own: "\<And>p. ownsOptimizer (heap w' p) = ownsOptimizer (heap w p)"
  shows "ownership_inv w'"
proof (rule ownership_invI)
  fix p
  assume "p \<in> live w'" "ownsOptimizer (heap w' p)"
  with lv have "p \<in> live w" "ownsOptimizer (heap w p)" by (auto simp: own)
  from ownership_inv_owned [OF inv this]
  show "\<exists>a. optimizer (heap w' p) = Some a \<and> a < next_opt w' \<and> a \<notin> set (released w')"
    by (simp add: opt rel nxt)
next
  fix p q
  assume "p \<in> live w'" "q \<in> live w'" "ownsOptimizer (heap w' p)"
    "ownsOptimizer (heap w' q)" "optimizer (heap w' p) = optimizer (heap w' q)"
  with lv have "p \<in> live w" "q \<in> live w" "ownsOptimizer (heap w p)"
    "ownsOptimizer (heap w q)" "optimizer (heap w p) = optimizer (heap w q)"
    by (auto simp: own opt)
  then show "p = q" by (rule ownership_inv_unique [OF inv])
next
  fix a assume "a \<in> set (released w')"
  then show "a < next_opt w'"
    using ownership_inv_released(1) [OF inv, of a] by (simp add: rel nxt)
next
  show "distinct (released w')"
    using ownership_inv_released(2) [OF inv] by (simp add: rel)
qed

lemma ownership_inv_write: "ownership_inv w \<Longrightarrow> ownership_inv (write_mat g v w)"
  by (rule ownership_inv_cong) simp_all

lemma orphaned_write [simp]: "orphaned a (write_mat g v w) = orphaned a w"
  by (simp add: orphaned_def)

lemma ownership_inv_construct:
  assumes inv: "ownership_inv w" and fresh: "this \<notin> live w"
  shows "ownership_inv (construct this n s rule w)"
proof (rule ownership_invI)
  fix p
  assume p: "p \<in> live (construct this n s rule w)"
    "ownsOptimizer (heap (construct this n s rule w) p)"
  show "\<exists>a. optimizer (heap (construct this n s rule w) p) = Some a \<and>
          a < next_opt (construct this n s rule w) \<and>
          a \<notin> set (released (construct this n s rule w))"
  proof (cases "p = this")
    case True
    then show ?thesis
      using ownership_inv_released(1) [OF inv, of "next_opt w"]
      by (auto simp: construct_heap)
  next
    case False
    with p ownership_inv_owned [OF inv, of p] show ?thesis
      by (auto simp: construct_heap)
  qed
next
  fix p q
  assume "p \<in> live (construct this n s rule w)" "q \<in> live (construct this n s rule w)"
    "ownsOptimizer (heap (construct this n s rule w) p)"
    "ownsOptimizer (heap (construct this n s rule w) q)"
    "optimizer (heap (construct this n s rule w) p) = optimizer (heap (construct this n s rule w) q)"
  then show "p = q"
    using ownership_inv_unique [OF inv, of p q] ownership_inv_owned [OF inv, of p]
      ownership_inv_owned [OF inv, of q]
    by (auto simp: construct_heap split: if_splits)
next
  fix a assume "a \<in> set (released (construct this n s rule w))"
  then show "a < next_opt (construct this n s rule w)"
    using ownership_inv_released(1) [OF inv, of a] by simp
next
  show "distinct (released (construct this n s rule w))"
    using ownership_inv_released(2) [OF inv] by simp
qed

text \<open>
  A move, by assignment or construction, hands the pointer and the flag of the source to
  the destination and clears them in the source.
\<close>

lemma ownership_inv_handover:
  assumes inv: "ownership_inv w" and src: "layer \<in> live w"
    and lv: "live w' = insert this (live w)"
    and rel: "released w' = released w" and nxt: "next_opt w' = next_opt w"
    and opt: "\<And>p. optimizer (heap w' p) =
       (if p = layer then None else if p = this then optimizer (heap w layer)
        else optimizer (heap w p))"
    and own: "\<And>p. ownsOptimizer (heap w' p) =
       (if p = layer then False else if p = this then ownsOptimizer (heap w layer)
        else ownsOptimizer (heap w p))"
  shows "ownership_inv w'"
proof (rule ownership_invI)
  fix p
  assume p: "p \<in> live w'" "ownsOptimizer (heap w' p)"
  then have "p \<noteq> layer" by (auto simp: own)
  show "\<exists>a. optimizer (heap w' p) = Some a \<and> a < next_opt w' \<and> a \<notin> set (released w')"
  proof (cases "p = this")
    case True
    with p \<open>p \<noteq> layer\<close> have "ownsOptimizer (heap w layer)" by (simp add: own)
    from ownership_inv_owned [OF inv src this] True \<open>p \<noteq> layer\<close> show ?thesis
      by (simp add: opt rel nxt)
  next
    case False
    with p \<open>p \<noteq> layer\<close> have "p \<in> live w" "ownsOptimizer (heap w p)"
      by (simp_all add: own lv)
    from ownership_inv_owned [OF inv this] False \<open>p \<noteq> layer\<close> show ?thesis
      by (simp add: opt rel nxt)
  qed
next
  fix p q
  assume pq: "p \<in> live w'" "q \<in> live w'" "ownsOptimizer (heap w' p)"
    "ownsOptimizer (heap w' q)" "optimizer (heap w' p) = optimizer (heap w' q)"
  then have ne: "p \<noteq> layer" "q \<noteq> layer" by (auto simp: own)
  have old: "r \<in> live w \<and> ownsOptimizer (heap w r) \<and> optimizer (heap w' r) = optimizer (heap w r)"
    if "r \<noteq> this" "r \<noteq> layer" "r \<in> live w'" "ownsOptimizer (heap w' r)" for r
    using that by (simp add: own opt lv)
  have new: "ownsOptimizer (heap w layer) \<and> optimizer (heap w' this) = optimizer (heap w layer)"
    if "this \<noteq> layer" "ownsOptimizer (heap w' this)"
    using that by (simp add: own opt)
  have clash: False
    if r: "r \<noteq> this" "r \<noteq> layer" "r \<in> live w'" "ownsOptimizer (heap w' r)"
      and t: "this \<noteq> layer" "ownsOptimizer (heap w' this)"
      and e: "optimizer (heap w' r) = optimizer (heap w' this)" for r
  proof -
    from old [OF r] have 1: "r \<in> live w" "ownsOptimizer (heap w r)"
      "optimizer (heap w' r) = optimizer (heap w r)" by simp_all
    from new [OF t] have 2: "ownsOptimizer (heap w layer)"
      "optimizer (heap w' this) = optimizer (heap w layer)" by simp_all
    from 1(3) 2(2) e have "optimizer (heap w r) = optimizer (heap w layer)" by metis
    from ownership_inv_unique [OF inv 1(1) src 1(2) 2(1) this] r(2) show False by simp
  qed
  show "p = q"
  proof (rule ccontr)
    assume d: "p \<noteq> q"
    show False
    proof (cases "p = this")
      case True
      with d have "q \<noteq> this" by simp
      from clash [OF this ne(2) pq(2,4)] True ne(1) pq(3,5) show False by metis
    next
      case False
      show False
      proof (cases "q = this")
        case True
        from clash [OF False ne(1) pq(1,3)] True ne(2) pq(4,5) show False by metis
      next
        case qf: False
        from old [OF False ne(1) pq(1,3)] have 1: "p \<in> live w" "ownsOptimizer (heap w p)"
          "optimizer (heap w' p) = optimizer (heap w p)" by simp_all
        from old [OF qf ne(2) pq(2,4)] have 2: "q \<in> live w" "ownsOptimizer (heap w q)"
          "optimizer (heap w' q) = optimizer (heap w q)" by simp_all
        from 1(3) 2(3) pq(5) have "optimizer (heap w p) = optimizer (heap w q)" by metis
        from ownership_inv_unique [OF inv 1(1) 2(1) 1(2) 2(2) this] d show False by simp
      qed
    qed
  qed
next
  fix a assume "a \<in> set (released w')"
  then show "a < next_opt w'"
    using ownership_inv_released(1) [OF inv, of a] by (simp add: rel nxt)
next
  show "distinct (released w')"
    using ownership_inv_released(2) [OF inv] by (simp add: rel)
qed

lemma ownership_inv_assign:
  assumes "ownership_inv w" "layer \<in> live w" "this \<in> live w"
  shows "ownership_inv (operator_assign this layer w)"
  using assms(1,2)
proof (rule ownership_inv_handover)
  show "live (operator_assign this layer w) = insert this (live w)"
    using assms(3) by auto
qed (simp_all add: operator_assign_owner)

lemma ownership_inv_move_construct:
  assumes "ownership_inv w" "layer \<in> live w" "this \<notin> live w"
  shows "ownership_inv (move_construct this layer w)"
proof -
  from assms have ne: "this \<noteq> layer" by auto
  from assms(1,2) show ?thesis
    by (rule ownership_inv_handover) (simp_all add: move_construct_owner [OF ne])
qed

lemma ownership_inv_destroy:
  assumes inv: "ownership_inv w" and lv: "this \<in> live w"
  shows "ownership_inv (destroy this w)"
proof (cases "ownsOptimizer (heap w this)")
  case False
  then have rel: "released (destroy this w) = released w"
    by (simp add: released_destroy)
  from inv show ?thesis
    by (rule ownership_inv_cong) (auto simp: rel)
next
  case True
  from ownership_inv_owned [OF inv lv True] obtain a where
    a: "optimizer (heap w this) = Some a" "a < next_opt w" "a \<notin> set (released w)"
    by blast
  with True have rel: "released (destroy this w) = released w @ [a]"
    by (simp add: released_destroy)
  show ?thesis
  proof (rule ownership_invI)
    fix p
    assume p: "p \<in> live (destroy this w)" "ownsOptimizer (heap (destroy this w) p)"
    then have p': "p \<in> live w" "p \<noteq> this" "ownsOptimizer (heap w p)" by simp_all
    from ownership_inv_owned [OF inv p'(1,3)] obtain b where
      b: "optimizer (heap w p) = Some b" "b < next_opt w" "b \<notin> set (released w)"
      by blast
    from ownership_inv_unique [OF inv p'(1) lv p'(3) True] p'(2) a(1) b(1)
    have "b \<noteq> a" by auto
    with b show "\<exists>a. optimizer (heap (destroy this w) p) = Some a \<and>
        a < next_opt (destroy this w) \<and> a \<notin> set (released (destroy this w))"
      by (simp add: rel)
  next
    fix p q
    assume "p \<in> live (destroy this w)" "q \<in> live (destroy this w)"
      "ownsOptimizer (heap (destroy this w) p)" "ownsOptimizer (heap (destroy this w) q)"
      "optimizer (heap (destroy this w) p) = optimizer (heap (destroy this w) q)"
    then have "p \<in> live w" "q \<in> live w" "ownsOptimizer (heap w p)"
      "ownsOptimizer (heap w q)" "optimizer (heap w p) = optimizer (heap w q)"
      by simp_all
    then show "p = q" by (rule ownership_inv_unique [OF inv])
  next
    fix b assume "b \<in> set (released (destroy this w))"
    then show "b < next_opt (destroy this w)"
      using ownership_inv_released(1) [OF inv, of b] a(2) by (auto simp: rel)
  next
    show "distinct (released (destroy this w))"
      using ownership_inv_released(2) [OF inv] a(3) by (simp add: rel)
  qed
qed

lemma ownership_inv_step:
  assumes "ownership_inv w" "step x w = Some w'"
  shows "ownership_inv w'"
proof (cases x)
  case (Construct this n s rule)
  with assms show ?thesis by (auto simp: ownership_inv_construct split: if_splits)
next
  case (MoveConstruct this layer)
  with assms show ?thesis by (auto simp: ownership_inv_move_construct split: if_splits)
next
  case (MoveAssign this layer)
  with assms show ?thesis by (auto simp: ownership_inv_assign split: if_splits)
next
  case (Destroy this)
  with assms show ?thesis by (auto simp: ownership_inv_destroy split: if_splits)
next
  case (CallForward this inp out)
  with assms show ?thesis
    by (auto simp: Forward_def ownership_inv_write split: if_splits sum.splits)
next
  case (CallBackward this inp gy g)
  with assms show ?thesis by (auto simp: Backward_def ownership_inv_write split: if_splits)
next
  case (CallGradient this d g)
  with assms show ?thesis by (auto simp: Gradient_def ownership_inv_write split: if_splits)
next
  case (Assign r v)
  with assms show ?thesis by (auto simp: ownership_inv_write split: if_splits)
qed

lemma ownership_inv_run:
  assumes "ownership_inv w" "run xs w = Some w'"
  shows "ownership_inv w'"
  using assms
proof (induction xs arbitrary: w)
  case Nil
  then show ?case by simp
next
  case (Cons x xs)
  then show ?case by (auto split: option.splits dest: ownership_inv_step)
qed


section \<open>Optimizers that no layer owns\<close>

lemma released_destroy_owner:
  assumes "ownsOptimizer (heap w this)" "optimizer (heap w this) = Some a"
  shows "released (destroy this w) = released w @ [a]"
  using assms by (simp add: destroy_def delete_optimizer_def Let_def)

lemma released_destroy_other:
  assumes "\<not> ownsOptimizer (heap w this)"
  shows "released (destroy this w) = released w"
  using assms by (simp add: destroy_def Let_def)

lemma released_destroy_null:
  assumes "optimizer (heap w this) = None"
  shows "released (destroy this w) = released w"
  using assms by (simp add: destroy_def delete_optimizer_def Let_def)

lemma orphaned_step:
  assumes "orphaned a w" "step x w = Some w'"
  shows "orphaned a w'"
proof (cases x)
  case (Construct this n s rule)
  with assms show ?thesis
    by (auto simp: orphaned_def construct_heap split: if_splits)
next
  case (MoveConstruct this layer)
  with assms have ne: "this \<noteq> layer" and w': "w' = move_construct this layer w"
    and lv: "layer \<in> live w"
    by (auto split: if_splits)
  with assms(1) show ?thesis
    by (auto simp: orphaned_def move_construct_owner [OF ne] split: if_splits)
next
  case (MoveAssign this layer)
  with assms show ?thesis
    by (auto simp: orphaned_def operator_assign_owner split: if_splits)
next
  case (Destroy this)
  with assms have lv: "this \<in> live w" and w': "w' = destroy this w"
    by (auto split: if_splits)
  from assms(1) lv have h: "ownsOptimizer (heap w this) \<Longrightarrow> optimizer (heap w this) \<noteq> Some a"
    by (simp add: orphaned_def)
  have "a \<notin> set (released (destroy this w))"
  proof (cases "ownsOptimizer (heap w this)")
    case False
    with assms(1) show ?thesis by (simp add: orphaned_def released_destroy_other)
  next
    case True
    show ?thesis
    proof (cases "optimizer (heap w this)")
      case None
      with assms(1) show ?thesis by (simp add: orphaned_def released_destroy_null)
    next
      case (Some b)
      with assms(1) h [OF True] True show ?thesis
        by (simp add: orphaned_def released_destroy_owner)
    qed
  qed
  with assms(1) show ?thesis
    by (simp add: orphaned_def w')
next
  case (CallForward this inp out)
  with assms show ?thesis by (auto simp: Forward_def split: if_splits sum.splits)
next
  case (CallBackward this inp gy g)
  with assms show ?thesis by (auto simp: Backward_def split: if_splits)
next
  case (CallGradient this d g)
  with assms show ?thesis by (auto simp: Gradient_def split: if_splits)
next
  case (Assign r v)
  with assms show ?thesis by (auto split: if_splits)
qed

lemma orphaned_run:
  assumes "orphaned a w" "run xs w = Some w'"
  shows "orphaned a w'"
  using assms
proof (induction xs arbitrary: w)
  case Nil
  then show ?case by simp
next
  case (Cons x xs)
  then show ?case by (auto split: option.splits dest: orphaned_step)
qed

lemma orphaned_after_assign:
  assumes inv: "ownership_inv w" and lv: "this \<in> live w" "layer \<in> live w"
    and ne: "this \<noteq> layer"
    and own: "ownsOptimizer (heap w this)" "optimizer (heap w this) = Some a"
  shows "orphaned a (operator_assign this layer w)"
  unfolding orphaned_def
proof (intro conjI ballI impI)
  from ownership_inv_owned [OF inv lv(1) own(1)] own(2)
  show "a < next_opt (operator_assign this layer w)"
    "a \<notin> set (released (operator_assign this layer w))"
    by simp_all
next
  fix p
  assume p: "p \<in> live (operator_assign this layer w)"
    "ownsOptimizer (heap (operator_assign this layer w) p)"
  show "optimizer (heap (operator_assign this layer w) p) \<noteq> Some a"
  proof
    assume e: "optimizer (heap (operator_assign this layer w) p) = Some a"
    from p have pl: "p \<noteq> layer" by (auto simp: operator_assign_owner)
    let ?q = "if p = this then layer else p"
    from p e pl have q: "?q \<in> live w" "ownsOptimizer (heap w ?q)"
      "optimizer (heap w ?q) = Some a"
      using lv by (auto simp: operator_assign_owner split: if_splits)
    from ownership_inv_unique [OF inv q(1) lv(1) q(2) own(1)] q(3) own(2)
    have "?q = this" by simp
    with ne pl show False by (auto split: if_splits)
  qed
qed



section \<open>Moving layers\<close>

lemma two_layers_world_eval:
  "live two_layers_world = {0, 1}"
  "released two_layers_world = []"
  "next_opt two_layers_world = 2"
  "heap two_layers_world 0 =
     \<lparr>outSize = 2, sampleSize = 1, weights = \<lparr>n_rows = 2, n_cols = 1, mem = [0, 0]\<rparr>,
      delta = empty_Mat, gradient = empty_Mat, inputParameter = empty_Mat,
      outputParameter = empty_Mat, optimizer = Some 0, ownsOptimizer = True\<rparr>"
  "heap two_layers_world (Suc 0) =
     \<lparr>outSize = 3, sampleSize = 1, weights = \<lparr>n_rows = 3, n_cols = 1, mem = [0, 0, 0]\<rparr>,
      delta = empty_Mat, gradient = empty_Mat, inputParameter = empty_Mat,
      outputParameter = empty_Mat, optimizer = Some 1, ownsOptimizer = True\<rparr>"
  by (auto simp: two_layers_world_def construct_heap initial_world_def ZeroInitialization_def
      zeros_def generate_def upt_conv_Cons)


lemma initial_world_inv: "ownership_inv initial_world"
  by (simp add: ownership_inv_def single_owner_def initial_world_def)

lemma reachable_inv:
  assumes "run xs initial_world = Some w"
  shows "ownership_inv w"
  using initial_world_inv assms by (rule ownership_inv_run)

lemma two_layers_world_inv: "ownership_inv two_layers_world"
  unfolding two_layers_world_def
  by (intro ownership_inv_construct initial_world_inv) (simp_all add: initial_world_def)

lemma get_buffer_assign:
  assumes "this \<noteq> layer"
  shows "get_buffer b (heap (operator_assign this layer w) this) = get_buffer b (heap w layer)"
    "get_buffer b (heap (operator_assign this layer w) layer) = get_buffer b (heap w this)"
  using assms by (cases b; simp add: operator_assign_heap)+

lemma get_buffer_move_construct:
  assumes "this \<noteq> layer"
  shows "get_buffer b (heap (move_construct this layer w) this) = get_buffer b (heap w layer)"
    "get_buffer b (heap (move_construct this layer w) layer) = empty_Mat"
  using assms by (cases b; simp add: move_construct_heap)+

text \<open>
  C4, as the code has it. After the move of the layer at \<open>layer\<close> into a different
  layer at \<open>this\<close>, the source's optimizer pointer is null and its ownership flag
  false; the destination holds the source's former pointer, flag, \<open>outSize\<close> and
  \<open>sampleSize\<close> and the former contents of its five buffers. The source's buffers hold
  what the destination's held before: after move assignment the destination's former
  contents, after move construction the empty matrices of a fresh object. In every world
  that satisfies the ownership invariant, every program leads to a world that satisfies
  it, so at most one live layer owns any optimizer at all times.
\<close>

theorem move_transfer:
  assumes "this \<noteq> layer"
  shows "optimizer (heap (operator_assign this layer w) layer) = None \<and>
         \<not> ownsOptimizer (heap (operator_assign this layer w) layer) \<and>
         optimizer (heap (operator_assign this layer w) this) = optimizer (heap w layer) \<and>
         ownsOptimizer (heap (operator_assign this layer w) this) = ownsOptimizer (heap w layer) \<and>
         outSize (heap (operator_assign this layer w) this) = outSize (heap w layer) \<and>
         sampleSize (heap (operator_assign this layer w) this) = sampleSize (heap w layer) \<and>
         (\<forall>b. get_buffer b (heap (operator_assign this layer w) this) = get_buffer b (heap w layer) \<and>
              get_buffer b (heap (operator_assign this layer w) layer) = get_buffer b (heap w this)) \<and>
         heap (move_construct this layer w) this = heap w layer \<and>
         optimizer (heap (move_construct this layer w) layer) = None \<and>
         \<not> ownsOptimizer (heap (move_construct this layer w) layer) \<and>
         (\<forall>b. get_buffer b (heap (move_construct this layer w) layer) = empty_Mat) \<and>
         (ownership_inv w \<longrightarrow>
            (\<forall>xs w'. run xs w = Some w' \<longrightarrow> ownership_inv w' \<and> single_owner w'))"
proof (intro conjI)
  show "heap (move_construct this layer w) this = heap w layer"
    using assms by (simp add: move_construct_heap)
  show "outSize (heap (operator_assign this layer w) this) = outSize (heap w layer)"
    "sampleSize (heap (operator_assign this layer w) this) = sampleSize (heap w layer)"
    using assms by (simp_all add: operator_assign_heap)
  show "ownership_inv w \<longrightarrow>
      (\<forall>xs w'. run xs w = Some w' \<longrightarrow> ownership_inv w' \<and> single_owner w')"
  proof (intro impI allI)
    fix xs w'
    assume "ownership_inv w" "run xs w = Some w'"
    then have "ownership_inv w'" by (rule ownership_inv_run)
    then show "ownership_inv w' \<and> single_owner w'" by (simp add: ownership_inv_def)
  qed
qed (use assms in \<open>simp_all add: operator_assign_owner get_buffer_assign
      get_buffer_move_construct move_construct_owner\<close>)

theorem move_transfer_witness:
  "(1::nat) \<noteq> 0 \<and> ownership_inv two_layers_world \<and>
   run [MoveAssign 1 0] two_layers_world = Some (operator_assign 1 0 two_layers_world) \<and>
   optimizer (heap (operator_assign 1 0 two_layers_world) 0) = None \<and>
   \<not> ownsOptimizer (heap (operator_assign 1 0 two_layers_world) 0) \<and>
   optimizer (heap (operator_assign 1 0 two_layers_world) 1) = Some 0 \<and>
   ownsOptimizer (heap (operator_assign 1 0 two_layers_world) 1) \<and>
   outSize (heap (operator_assign 1 0 two_layers_world) 1) = 2 \<and>
   weights (heap (operator_assign 1 0 two_layers_world) 1) = \<lparr>n_rows = 2, n_cols = 1, mem = [0, 0]\<rparr> \<and>
   weights (heap (move_construct 2 0 two_layers_world) 0) = empty_Mat \<and>
   single_owner (operator_assign 1 0 two_layers_world)"
proof -
  let ?w = "two_layers_world"
  let ?w1 = "operator_assign 1 0 ?w"
  have ne: "(1::nat) \<noteq> 0" "(2::nat) \<noteq> 0" by simp_all
  have r: "run [MoveAssign 1 0] ?w = Some ?w1"
    by (simp add: two_layers_world_eval)
  note t = move_transfer [OF ne(1), of ?w]
  from t have 1: "optimizer (heap ?w1 0) = None" "\<not> ownsOptimizer (heap ?w1 0)"
    by blast+
  from t have "optimizer (heap ?w1 1) = optimizer (heap ?w 0)"
    "ownsOptimizer (heap ?w1 1) = ownsOptimizer (heap ?w 0)"
    "outSize (heap ?w1 1) = outSize (heap ?w 0)"
    by blast+
  then have 2: "optimizer (heap ?w1 1) = Some 0" "ownsOptimizer (heap ?w1 1)"
    "outSize (heap ?w1 1) = 2"
    by (simp_all add: two_layers_world_eval)
  from t have "get_buffer weights_buf (heap ?w1 1) = get_buffer weights_buf (heap ?w 0)"
    by blast
  then have 3: "weights (heap ?w1 1) = \<lparr>n_rows = 2, n_cols = 1, mem = [0, 0]\<rparr>"
    by (simp add: two_layers_world_eval)
  from move_transfer [OF ne(2), of ?w]
  have "get_buffer weights_buf (heap (move_construct 2 0 ?w) 0) = empty_Mat" by blast
  then have 4: "weights (heap (move_construct 2 0 ?w) 0) = empty_Mat" by simp
  from t two_layers_world_inv r have 5: "single_owner ?w1" by blast
  from ne(1) two_layers_world_inv r 1 2 3 4 5 show ?thesis by blast
qed

text \<open>
  C4, as the specification states it, fails for move assignment into a layer whose
  buffers are not empty: the source ends with the destination's former weights.
\<close>

theorem move_transfer_counterexample:
  "weights (heap (operator_assign 1 0 two_layers_world) 0) =
     \<lparr>n_rows = 3, n_cols = 1, mem = [0, 0, 0]\<rparr> \<and>
   weights (heap (operator_assign 1 0 two_layers_world) 0) \<noteq> empty_Mat"
  using operator_assign_heap [of 1 0 two_layers_world]
  by (simp add: two_layers_world_eval empty_Mat_def)



text \<open>
  C9. If the layer at \<open>this\<close> owns optimizer \<open>a\<close>, move-assigning another layer into it
  overwrites its pointer and flag with the source's and releases nothing; \<open>a\<close> has not
  been released, and no program that follows ever releases it.
\<close>

theorem move_assign_leaks:
  assumes "ownership_inv w" "this \<in> live w" "layer \<in> live w" "this \<noteq> layer"
    and "ownsOptimizer (heap w this)" "optimizer (heap w this) = Some a"
  shows "released (operator_assign this layer w) = released w \<and>
         a \<notin> set (released w) \<and>
         optimizer (heap (operator_assign this layer w) this) = optimizer (heap w layer) \<and>
         ownsOptimizer (heap (operator_assign this layer w) this) = ownsOptimizer (heap w layer) \<and>
         (\<forall>xs w'. run xs (operator_assign this layer w) = Some w' \<longrightarrow> a \<notin> set (released w'))"
proof -
  have "a \<notin> set (released w')" if "run xs (operator_assign this layer w) = Some w'" for xs w'
    using orphaned_run [OF orphaned_after_assign [OF assms] that] by (simp add: orphaned_def)
  moreover have "a \<notin> set (released w)"
    using ownership_inv_owned [OF assms(1,2,5)] assms(6) by simp
  ultimately show ?thesis
    using assms(4) by (simp add: operator_assign_owner)
qed

theorem move_assign_leaks_witness:
  "ownership_inv two_layers_world \<and> 1 \<in> live two_layers_world \<and> 0 \<in> live two_layers_world \<and>
   (1::nat) \<noteq> 0 \<and> ownsOptimizer (heap two_layers_world 1) \<and>
   optimizer (heap two_layers_world 1) = Some 1 \<and>
   optimizer (heap (operator_assign 1 0 two_layers_world) 1) = Some 0 \<and>
   (\<exists>w'. run [Destroy 0, Destroy 1] (operator_assign 1 0 two_layers_world) = Some w' \<and>
      live w' = {} \<and> released w' = [0] \<and> 1 \<notin> set (released w'))"
proof -
  have h: "ownership_inv two_layers_world" "1 \<in> live two_layers_world"
      "0 \<in> live two_layers_world" "(1::nat) \<noteq> 0" "ownsOptimizer (heap two_layers_world 1)"
      "optimizer (heap two_layers_world 1) = Some 1"
    by (simp_all add: two_layers_world_inv two_layers_world_eval)
  let ?w1 = "operator_assign 1 0 two_layers_world"
  let ?w3 = "destroy 1 (destroy 0 ?w1)"
  have r: "run [Destroy 0, Destroy 1] ?w1 = Some ?w3"
    by (simp add: two_layers_world_eval)
  have rel: "released ?w3 = [0]"
    by (simp add: released_destroy_other released_destroy_owner [where a = 0]
        operator_assign_owner two_layers_world_eval)
  have lv: "live ?w3 = {}"
    by (auto simp: two_layers_world_eval)
  from move_assign_leaks [OF h] have
    opt: "optimizer (heap ?w1 1) = optimizer (heap two_layers_world 0)"
    and never: "\<forall>xs w'. run xs ?w1 = Some w' \<longrightarrow> 1 \<notin> set (released w')"
    by blast+
  from never r have "1 \<notin> set (released ?w3)" by blast
  with r rel lv have
    "\<exists>w'. run [Destroy 0, Destroy 1] ?w1 = Some w' \<and>
       live w' = {} \<and> released w' = [0] \<and> 1 \<notin> set (released w')"
    by blast
  moreover from opt have "optimizer (heap ?w1 1) = Some 0"
    by (simp add: two_layers_world_eval)
  ultimately show ?thesis using h by blast
qed


section \<open>One layer, moved and destroyed\<close>









end
